theory Spec2Isabelle
  imports Complex_Main "HOL-Library.Sublist" "HOL-Library.Multiset"
begin

section \<open>JavaScript values\<close>

text \<open>
  The manager and the Task class are dynamically typed: every argument can be any
  JavaScript value, and the code tests \<^verbatim>\<open>typeof\<close>, truthiness and strict equality on
  them. The model covers the primitive values. A number is a double: NaN, the two
  infinities, or a finite value, which is a rational (\<open>-0\<close> and \<open>+0\<close> are the same
  rational, as they are for \<^verbatim>\<open>===\<close>). A string is a list of code units; the model's
  \<open>char\<close> is a code unit in the range U+0000 to U+00FF.

  Task identifiers and the \<^verbatim>\<open>nextId\<close> counter are numbers that hold integers; they are
  modelled as \<open>int\<close>, which is what double arithmetic does on them below \<open>2 ^ 53\<close>.
\<close>

datatype jsnum = NaN | Infinity | NegInfinity | Finite rat

datatype jsval = JUndefined | JNull | JBool bool | JNum jsnum | JStr string

fun typeof :: "jsval \<Rightarrow> string" where
  "typeof JUndefined = ''undefined''"
| "typeof JNull = ''object''"
| "typeof (JBool b) = ''boolean''"
| "typeof (JNum n) = ''number''"
| "typeof (JStr s) = ''string''"

text \<open>\<^verbatim>\<open>!v\<close> is \<open>\<not> truthy v\<close>.\<close>

fun truthy :: "jsval \<Rightarrow> bool" where
  "truthy JUndefined = False"
| "truthy JNull = False"
| "truthy (JBool b) = b"
| "truthy (JNum n) = (n \<noteq> NaN \<and> n \<noteq> Finite 0)"
| "truthy (JStr s) = (s \<noteq> [])"

text \<open>\<^verbatim>\<open>task.id === taskId\<close>, the left side being an integer-valued number.\<close>

fun strict_equals_id :: "int \<Rightarrow> jsval \<Rightarrow> bool" where
  "strict_equals_id i (JNum (Finite q)) = (q = of_int i)"
| "strict_equals_id i v = False"

text \<open>The JavaScript values that are integers.\<close>

fun is_integer :: "jsval \<Rightarrow> bool" where
  "is_integer (JNum (Finite q)) = (of_int \<lfloor>q\<rfloor> = q)"
| "is_integer v = False"

subsection \<open>Strings\<close>

text \<open>
  \<^verbatim>\<open>String.prototype.trim\<close> removes white space and line terminators from both
  ends: TAB, LF, VT, FF, CR, SPACE and NO-BREAK SPACE in the modelled range.
\<close>

definition is_whitespace :: "char \<Rightarrow> bool" where
  "is_whitespace c = ((of_char c :: nat) \<in> {9, 10, 11, 12, 13, 32, 160})"

definition trim :: "string \<Rightarrow> string" where
  "trim s = rev (dropWhile is_whitespace (rev (dropWhile is_whitespace s)))"

text \<open>
  \<^verbatim>\<open>String.prototype.toLowerCase\<close>: in the modelled range the letters with a lowercase
  form are A to Z and U+00C0 to U+00DE without the multiplication sign U+00D7.
\<close>

definition toLowerCase_char :: "char \<Rightarrow> char" where
  "toLowerCase_char c =
     (let n = (of_char c :: nat)
      in if (65 \<le> n \<and> n \<le> 90) \<or> (192 \<le> n \<and> n \<le> 222 \<and> n \<noteq> 215)
         then char_of (n + 32) else c)"

definition toLowerCase :: "string \<Rightarrow> string" where
  "toLowerCase s = map toLowerCase_char s"

subsection \<open>The due-date pattern\<close>

text \<open>
  \<^verbatim>\<open>/^\d{4}-\d{2}-\d{2}$/\<close>: a sequence of atoms, each matching one code unit, anchored at
  both ends (no \<^verbatim>\<open>m\<close> flag, so \<^verbatim>\<open>$\<close> is the end of the input). \<^verbatim>\<open>\d\<close> is 0 to 9.
\<close>

datatype atom = Digit | Lit char

definition is_digit :: "char \<Rightarrow> bool" where
  "is_digit c = (48 \<le> (of_char c :: nat) \<and> (of_char c :: nat) \<le> 57)"

fun atom_matches :: "atom \<Rightarrow> char \<Rightarrow> bool" where
  "atom_matches Digit c = is_digit c"
| "atom_matches (Lit l) c = (c = l)"

fun matches :: "atom list \<Rightarrow> string \<Rightarrow> bool" where
  "matches [] [] = True"
| "matches (a # as) (c # cs) = (atom_matches a c \<and> matches as cs)"
| "matches as cs = False"

definition dueDate_regex :: "atom list" where
  "dueDate_regex =
     replicate 4 Digit @ [Lit (CHR ''-'')] @ replicate 2 Digit @ [Lit (CHR ''-'')] @ replicate 2 Digit"

text \<open>
  \<^verbatim>\<open>regex.test(v)\<close> converts \<open>v\<close> to a string first. The strings of the other
  primitives (\<^verbatim>\<open>undefined\<close>, \<^verbatim>\<open>null\<close>, \<^verbatim>\<open>true\<close>, \<^verbatim>\<open>false\<close> and the
  renderings of numbers, which have at most one \<^verbatim>\<open>-\<close> after the first position)
  never match this pattern.
\<close>

fun dueDate_regex_test :: "jsval \<Rightarrow> bool" where
  "dueDate_regex_test (JStr s) = matches dueDate_regex s"
| "dueDate_regex_test v = False"

section \<open>Errors\<close>

text \<open>
  Every error of the code is a plain \<^verbatim>\<open>Error\<close> with a message. \<open>Error msg\<close> carries a
  message that is a fixed text or built from strings. \<open>NotFound v action\<close> is the error
  with the message \<^verbatim>\<open>Task with ID ${v} not found. Cannot <action>.\<close>; the value is kept
  as it is, not rendered. \<open>TypeError\<close> is what calling a method on a value that does
  not have it raises.
\<close>

datatype error = Error string | NotFound jsval string | TypeError

section \<open>Task\<close>

record task =
  task_id :: int
  description :: string
  dueDate :: jsval
  completed :: bool

definition new_Task :: "int \<Rightarrow> jsval \<Rightarrow> jsval \<Rightarrow> bool \<Rightarrow> error + task" where
  "new_Task i descr due compl =
     (if \<not> truthy descr \<or> typeof descr \<noteq> ''string'' \<or> (case descr of JStr s \<Rightarrow> trim s = [] | _ \<Rightarrow> True)
      then Inl (Error ''Task description cannot be empty.'')
      else if \<not> truthy due \<or> \<not> dueDate_regex_test due
      then Inl (Error ''Invalid or missing due date. Expected format YYYY-MM-DD.'')
      else Inr \<lparr>task_id = i,
                description = (case descr of JStr s \<Rightarrow> trim s | _ \<Rightarrow> []),
                dueDate = due,
                completed = compl\<rparr>)"

definition markComplete :: "task \<Rightarrow> task" where
  "markComplete t = t\<lparr>completed := True\<rparr>"

definition markIncomplete :: "task \<Rightarrow> task" where
  "markIncomplete t = t\<lparr>completed := False\<rparr>"

definition updateDescription :: "task \<Rightarrow> jsval \<Rightarrow> error + task" where
  "updateDescription t newDescription =
     (if \<not> truthy newDescription \<or> typeof newDescription \<noteq> ''string''
         \<or> (case newDescription of JStr s \<Rightarrow> trim s = [] | _ \<Rightarrow> True)
      then Inl (Error ''New task description cannot be empty.'')
      else Inr (t\<lparr>description := (case newDescription of JStr s \<Rightarrow> trim s | _ \<Rightarrow> [])\<rparr>))"

definition updateDueDate :: "task \<Rightarrow> jsval \<Rightarrow> error + task" where
  "updateDueDate t newDueDate =
     (if \<not> truthy newDueDate \<or> \<not> dueDate_regex_test newDueDate
      then Inl (Error ''Invalid or missing new due date. Expected format YYYY-MM-DD.'')
      else Inr (t\<lparr>dueDate := newDueDate\<rparr>))"

section \<open>TodoListManager\<close>

text \<open>
  The manager's state is its two fields. Every method is a function from the state and
  the arguments to the outcome (the thrown error or the returned value) and the state
  after the call, so that what a call leaves behind when it throws is part of the model.
  The console output of \<^verbatim>\<open>addTask\<close> and \<^verbatim>\<open>_findTaskById\<close> is not part of the state.
\<close>

record manager =
  tasks :: "task list"
  nextId :: int

definition new_TodoListManager :: manager where
  "new_TodoListManager = \<lparr>tasks = [], nextId = 1\<rparr>"

definition addTask :: "manager \<Rightarrow> jsval \<Rightarrow> jsval \<Rightarrow> (error + task) \<times> manager" where
  "addTask m descr due =
     (case new_Task (nextId m) descr due False of
        Inl e \<Rightarrow> (Inl e, m)
      | Inr newTask \<Rightarrow> (Inr newTask, m\<lparr>tasks := tasks m @ [newTask], nextId := nextId m + 1\<rparr>))"

text \<open>\<^verbatim>\<open>_findTaskById\<close>; the returned \<open>None\<close> is \<^verbatim>\<open>undefined\<close>.\<close>

definition findTaskById :: "manager \<Rightarrow> jsval \<Rightarrow> (error + task option) \<times> manager" where
  "findTaskById m taskId =
     (if typeof taskId \<noteq> ''number'' then (Inr None, m)
      else (Inr (List.find (\<lambda>task. strict_equals_id (task_id task) taskId) (tasks m)), m))"

text \<open>\<^verbatim>\<open>Array.prototype.findIndex\<close>; \<open>None\<close> is \<open>-1\<close>.\<close>

fun findIndex :: "('a \<Rightarrow> bool) \<Rightarrow> 'a list \<Rightarrow> nat option" where
  "findIndex P [] = None"
| "findIndex P (x # xs) = (if P x then Some 0 else map_option Suc (findIndex P xs))"

text \<open>
  \<^verbatim>\<open>_findTaskById\<close> returns a reference to the stored object, and the methods below
  mutate the object through it. The model names the object by its position in
  \<^verbatim>\<open>this.tasks\<close>: \<open>findTaskRef\<close> is the position of the object \<open>findTaskById\<close> returns
  (lemma \<open>findTaskById_findTaskRef\<close>).
\<close>

definition findTaskRef :: "manager \<Rightarrow> jsval \<Rightarrow> nat option" where
  "findTaskRef m taskId =
     (if typeof taskId \<noteq> ''number'' then None
      else findIndex (\<lambda>task. strict_equals_id (task_id task) taskId) (tasks m))"

definition markTaskComplete :: "manager \<Rightarrow> jsval \<Rightarrow> (error + task) \<times> manager" where
  "markTaskComplete m taskId =
     (case findTaskRef m taskId of
        None \<Rightarrow> (Inl (NotFound taskId ''mark as complete''), m)
      | Some r \<Rightarrow>
          (let task = markComplete (tasks m ! r)
           in (Inr task, m\<lparr>tasks := (tasks m)[r := task]\<rparr>)))"

definition markTaskIncomplete :: "manager \<Rightarrow> jsval \<Rightarrow> (error + task) \<times> manager" where
  "markTaskIncomplete m taskId =
     (case findTaskRef m taskId of
        None \<Rightarrow> (Inl (NotFound taskId ''mark as incomplete''), m)
      | Some r \<Rightarrow>
          (let task = markIncomplete (tasks m ! r)
           in (Inr task, m\<lparr>tasks := (tasks m)[r := task]\<rparr>)))"

definition invalid_filter_message :: "string \<Rightarrow> string" where
  "invalid_filter_message filterStatus =
     ''Invalid filter status: '' @ [CHR 0x22] @ filterStatus @ [CHR 0x22] @ ''. Use ''
       @ [CHR 0x27] @ ''all'' @ [CHR 0x27] @ '', '' @ [CHR 0x27] @ ''completed'' @ [CHR 0x27]
       @ '', or '' @ [CHR 0x27] @ ''pending'' @ [CHR 0x27] @ ''.''"

text \<open>
  \<^verbatim>\<open>listTasks(filterStatus = 'all')\<close>: the default replaces \<^verbatim>\<open>undefined\<close> only; a value
  of another type has no \<^verbatim>\<open>toLowerCase\<close>.
\<close>

definition listTasks :: "manager \<Rightarrow> jsval \<Rightarrow> (error + task list) \<times> manager" where
  "listTasks m filterStatus =
     (case (case filterStatus of JUndefined \<Rightarrow> JStr ''all'' | v \<Rightarrow> v) of
        JStr f \<Rightarrow>
          (if toLowerCase f = ''all'' then (Inr (tasks m), m)
           else if toLowerCase f = ''completed'' then (Inr (filter (\<lambda>task. completed task) (tasks m)), m)
           else if toLowerCase f = ''pending'' then (Inr (filter (\<lambda>task. \<not> completed task) (tasks m)), m)
           else (Inl (Error (invalid_filter_message f)), m))
      | _ \<Rightarrow> (Inl TypeError, m))"

text \<open>\<^verbatim>\<open>splice(taskIndex, 1)\<close> removes the element at the position.\<close>

definition deleteTask :: "manager \<Rightarrow> jsval \<Rightarrow> (error + bool) \<times> manager" where
  "deleteTask m taskId =
     (case findIndex (\<lambda>task. strict_equals_id (task_id task) taskId) (tasks m) of
        None \<Rightarrow> (Inl (NotFound taskId ''delete''), m)
      | Some taskIndex \<Rightarrow>
          (Inr True, m\<lparr>tasks := take taskIndex (tasks m) @ drop (Suc taskIndex) (tasks m)\<rparr>))"

text \<open>
  The \<^verbatim>\<open>updates\<close> object: each of the two properties is absent (\<open>None\<close>) or present
  with a value (\<^verbatim>\<open>hasOwnProperty\<close>).
\<close>

record updates =
  upd_description :: "jsval option"
  upd_dueDate :: "jsval option"

text \<open>
  \<^verbatim>\<open>updateTask\<close> runs the two updates one after the other on the stored object. A
  throw of the second leaves what the first has written.
\<close>

definition updateTask :: "manager \<Rightarrow> jsval \<Rightarrow> updates \<Rightarrow> (error + task) \<times> manager" where
  "updateTask m taskId upd =
     (case findTaskRef m taskId of
        None \<Rightarrow> (Inl (NotFound taskId ''update''), m)
      | Some r \<Rightarrow>
          (case (case upd_description upd of
                   None \<Rightarrow> Inr (tasks m ! r)
                 | Some d \<Rightarrow> updateDescription (tasks m ! r) d) of
             Inl e \<Rightarrow> (Inl e, m)
           | Inr task1 \<Rightarrow>
               (case (case upd_dueDate upd of
                        None \<Rightarrow> Inr task1
                      | Some d \<Rightarrow> updateDueDate task1 d) of
                  Inl e \<Rightarrow> (Inl e, m\<lparr>tasks := (tasks m)[r := task1]\<rparr>)
                | Inr task2 \<Rightarrow> (Inr task2, m\<lparr>tasks := (tasks m)[r := task2]\<rparr>))))"

section \<open>Sequences of calls\<close>

text \<open>
  The methods of a Task, as values, and what a call leaves of the object: both update
  methods throw before they assign, so a call that throws leaves the object as it was.
\<close>

datatype task_call = MarkComplete | MarkIncomplete | UpdateDescription jsval | UpdateDueDate jsval

fun task_exec :: "task \<Rightarrow> task_call \<Rightarrow> task" where
  "task_exec t MarkComplete = markComplete t"
| "task_exec t MarkIncomplete = markIncomplete t"
| "task_exec t (UpdateDescription d) = (case updateDescription t d of Inl e \<Rightarrow> t | Inr t' \<Rightarrow> t')"
| "task_exec t (UpdateDueDate d) = (case updateDueDate t d of Inl e \<Rightarrow> t | Inr t' \<Rightarrow> t')"

text \<open>
  The calls a client can make on a manager: its methods, and the methods of a stored
  Task, which the manager hands out by reference (\<open>OnTask k c\<close> is the call \<open>c\<close> on the
  object at position \<open>k\<close> of the sequence). \<open>exec\<close> is the state after one call, whether
  it returns or throws; \<open>run\<close> is the state after a sequence of calls.
\<close>

datatype call =
    AddTask jsval jsval
  | FindTaskById jsval
  | MarkTaskComplete jsval
  | MarkTaskIncomplete jsval
  | ListTasks jsval
  | DeleteTask jsval
  | UpdateTask jsval updates
  | OnTask nat task_call

fun exec :: "manager \<Rightarrow> call \<Rightarrow> manager" where
  "exec m (AddTask descr due) = snd (addTask m descr due)"
| "exec m (FindTaskById taskId) = snd (findTaskById m taskId)"
| "exec m (MarkTaskComplete taskId) = snd (markTaskComplete m taskId)"
| "exec m (MarkTaskIncomplete taskId) = snd (markTaskIncomplete m taskId)"
| "exec m (ListTasks filterStatus) = snd (listTasks m filterStatus)"
| "exec m (DeleteTask taskId) = snd (deleteTask m taskId)"
| "exec m (UpdateTask taskId upd) = snd (updateTask m taskId upd)"
| "exec m (OnTask k c) =
     (if k < length (tasks m) then m\<lparr>tasks := (tasks m)[k := task_exec (tasks m ! k) c]\<rparr> else m)"

definition run :: "manager \<Rightarrow> call list \<Rightarrow> manager" where
  "run m cs = foldl exec m cs"

section \<open>The specification's wording\<close>

text \<open>
  The specification describes the due-date pattern as four digits, dash, two digits,
  dash, two digits, and the invalid inputs of \<^verbatim>\<open>addTask\<close> as a description that is
  missing, not a string or trims to empty, and a due date that is missing or does not
  match the pattern. These definitions follow that wording; the theorems compare them
  with the code's checks.
\<close>

definition spec_date_shape :: "string \<Rightarrow> bool" where
  "spec_date_shape s =
     (length s = 10 \<and> list_all is_digit (take 4 s) \<and> s ! 4 = CHR ''-''
      \<and> list_all is_digit (take 2 (drop 5 s)) \<and> s ! 7 = CHR ''-''
      \<and> list_all is_digit (drop 8 s))"

definition spec_description_invalid :: "jsval \<Rightarrow> bool" where
  "spec_description_invalid v =
     (v = JUndefined \<or> typeof v \<noteq> ''string'' \<or> (case v of JStr s \<Rightarrow> trim s = [] | _ \<Rightarrow> False))"

definition spec_dueDate_invalid :: "jsval \<Rightarrow> bool" where
  "spec_dueDate_invalid v =
     (v = JUndefined \<or> (case v of JStr s \<Rightarrow> \<not> spec_date_shape s | _ \<Rightarrow> True))"

text \<open>
  The invariant of a Task in the specification's words: the description is not empty,
  is its own trim and is not all white space, and the due date is a string of the
  pattern's shape.
\<close>

definition spec_task_invariant :: "task \<Rightarrow> bool" where
  "spec_task_invariant t =
     (description t \<noteq> [] \<and> trim (description t) = description t
      \<and> \<not> list_all is_whitespace (description t)
      \<and> (case dueDate t of JStr s \<Rightarrow> spec_date_shape s | _ \<Rightarrow> False))"

text \<open>
  The effect of a successful \<^verbatim>\<open>markTaskComplete\<close> or \<^verbatim>\<open>markTaskIncomplete\<close> as the
  claim words it: one position \<open>k\<close>, the first whose id is the argument, holds the
  returned task, whose flag is \<open>b\<close> and whose other fields are the old ones; nothing else
  differs.
\<close>

definition spec_only_completed_changed :: "manager \<Rightarrow> jsval \<Rightarrow> bool \<Rightarrow> task \<Rightarrow> manager \<Rightarrow> bool" where
  "spec_only_completed_changed m v b t m' =
     (\<exists>k<length (tasks m).
          strict_equals_id (task_id (tasks m ! k)) v
          \<and> (\<forall>j<k. \<not> strict_equals_id (task_id (tasks m ! j)) v)
          \<and> t = tasks m' ! k
          \<and> completed (tasks m' ! k) = b
          \<and> task_id (tasks m' ! k) = task_id (tasks m ! k)
          \<and> description (tasks m' ! k) = description (tasks m ! k)
          \<and> dueDate (tasks m' ! k) = dueDate (tasks m ! k)
          \<and> length (tasks m') = length (tasks m)
          \<and> (\<forall>j<length (tasks m). j \<noteq> k \<longrightarrow> tasks m' ! j = tasks m ! j)
          \<and> nextId m' = nextId m)"

section \<open>What a call does to the state\<close>

text \<open>
  What one call does to the state: it appends a newly constructed task and advances the
  counter, or removes one task, or leaves a stored task as some calls of its methods
  leave it, or changes nothing.
\<close>

definition appended :: "manager \<Rightarrow> manager \<Rightarrow> bool" where
  "appended m m' =
     (\<exists>descr due t. new_Task (nextId m) descr due False = Inr t
        \<and> m' = m\<lparr>tasks := tasks m @ [t], nextId := nextId m + 1\<rparr>)"

definition removed :: "manager \<Rightarrow> manager \<Rightarrow> bool" where
  "removed m m' =
     (\<exists>k. k < length (tasks m) \<and> m' = m\<lparr>tasks := take k (tasks m) @ drop (Suc k) (tasks m)\<rparr>)"

definition touched :: "manager \<Rightarrow> manager \<Rightarrow> bool" where
  "touched m m' =
     (\<exists>r cs. r < length (tasks m)
        \<and> m' = m\<lparr>tasks := (tasks m)[r := foldl task_exec (tasks m ! r) cs]\<rparr>)"

text \<open>The identifiers in a state: pairwise distinct and below the counter.\<close>

definition ids_ok :: "manager \<Rightarrow> bool" where
  "ids_ok m =
     (distinct (map task_id (tasks m)) \<and> list_all (\<lambda>i. i < nextId m) (map task_id (tasks m)))"

section \<open>Example data\<close>

definition example_tasks :: "task list" where
  "example_tasks =
     [\<lparr>task_id = 1, description = ''Buy milk'', dueDate = JStr ''2024-08-15'', completed = True\<rparr>,
      \<lparr>task_id = 2, description = ''Report'', dueDate = JStr ''2024-08-20'', completed = False\<rparr>,
      \<lparr>task_id = 3, description = ''Call'', dueDate = JStr ''2024-08-21'', completed = True\<rparr>]"

definition example_manager :: manager where
  "example_manager = \<lparr>tasks = example_tasks, nextId = 4\<rparr>"

definition example_calls :: "call list" where
  "example_calls =
     [AddTask (JStr ''Buy milk'') (JStr ''2024-08-15''),
      AddTask (JStr ''Report'') (JStr ''2024-08-20''),
      MarkTaskComplete (JNum (Finite 1))]"

definition example_updates :: updates where
  "example_updates = \<lparr>upd_description = Some (JStr '' Essay ''), upd_dueDate = Some (JStr ''tomorrow'')\<rparr>"

section \<open>Facts about the pattern and the string functions\<close>

lemma tasks_example_manager: "tasks example_manager = example_tasks"
  by (simp add: example_manager_def)

lemma dueDate_regex_atoms:
  "dueDate_regex =
     [Digit, Digit, Digit, Digit, Lit (CHR ''-''), Digit, Digit, Lit (CHR ''-''), Digit, Digit]"
  by (simp add: dueDate_regex_def eval_nat_numeral)

lemma matches_length: "matches as cs \<Longrightarrow> length cs = length as"
  by (induction as cs rule: matches.induct) simp_all

lemma length_ten:
  assumes "length (s :: 'a list) = 10"
  obtains a b c d e f g h i j where "s = [a, b, c, d, e, f, g, h, i, j]"
  using assms by (auto simp: eval_nat_numeral length_Suc_conv)

lemma matches_dueDate_regex_iff: "matches dueDate_regex s = spec_date_shape s"
proof (cases "length s = 10")
  case True
  then obtain a b c d e f g h i j where "s = [a, b, c, d, e, f, g, h, i, j]"
    by (rule length_ten)
  then show ?thesis
    by (auto simp: dueDate_regex_atoms spec_date_shape_def)
next
  case False
  then have "\<not> matches dueDate_regex s"
    using matches_length [of dueDate_regex s] by (auto simp: dueDate_regex_atoms)
  with False show ?thesis
    by (simp add: spec_date_shape_def)
qed

lemma matches_nonempty: "matches dueDate_regex s \<Longrightarrow> s \<noteq> []"
  by (auto simp: dueDate_regex_atoms)

lemma trim_nonempty_arg: "trim s \<noteq> [] \<Longrightarrow> s \<noteq> []"
  by (auto simp: trim_def)

lemma last_dropWhile: "dropWhile P xs \<noteq> [] \<Longrightarrow> last (dropWhile P xs) = last xs"
  by (induction xs) auto

lemma trim_ends:
  assumes "trim s \<noteq> []"
  shows "\<not> is_whitespace (hd (trim s))" and "\<not> is_whitespace (last (trim s))"
proof -
  let ?t = "dropWhile is_whitespace s"
  let ?u = "dropWhile is_whitespace (rev ?t)"
  from assms have u: "?u \<noteq> []" by (simp add: trim_def)
  have t: "?t \<noteq> []"
  proof
    assume "?t = []"
    then have "?u = []" by (simp only: rev.simps dropWhile.simps)
    with u show False by simp
  qed
  from u have "\<not> is_whitespace (hd ?u)" by (rule hd_dropWhile)
  with u show "\<not> is_whitespace (last (trim s))"
    by (simp add: trim_def last_rev)
  from t have "\<not> is_whitespace (hd ?t)" by (rule hd_dropWhile)
  moreover from u t have "last ?u = hd ?t"
    by (simp add: last_dropWhile last_rev)
  ultimately show "\<not> is_whitespace (hd (trim s))"
    using u by (simp add: trim_def hd_rev)
qed

lemma trim_fixed:
  assumes "xs \<noteq> []" and "\<not> is_whitespace (hd xs)" and "\<not> is_whitespace (last xs)"
  shows "trim xs = xs"
proof -
  from assms(1,2) have a: "dropWhile is_whitespace xs = xs"
    by (cases xs) simp_all
  from assms(1,3) have "dropWhile is_whitespace (rev xs) = rev xs"
    by (cases "rev xs") (simp_all add: hd_rev [symmetric])
  with a show ?thesis by (simp add: trim_def)
qed

lemma trim_idem: "trim (trim s) = trim s"
proof (cases "trim s = []")
  case True
  have "trim [] = []" by (simp add: trim_def)
  with True show ?thesis by simp
next
  case False
  from trim_fixed [OF False trim_ends [OF False]] show ?thesis .
qed

lemma trim_not_all_whitespace:
  assumes "trim s \<noteq> []"
  shows "\<not> list_all is_whitespace (trim s)"
proof
  assume "list_all is_whitespace (trim s)"
  with assms have "is_whitespace (hd (trim s))"
    by (cases "trim s") simp_all
  with trim_ends(1) [OF assms] show False by simp
qed

section \<open>Task construction and update\<close>

lemma new_Task_valid:
  assumes "trim s \<noteq> []" and "spec_date_shape d"
  shows "new_Task i (JStr s) (JStr d) c =
           Inr \<lparr>task_id = i, description = trim s, dueDate = JStr d, completed = c\<rparr>"
  using assms trim_nonempty_arg [of s] matches_nonempty [of d]
  by (simp add: new_Task_def matches_dueDate_regex_iff)

lemma new_Task_description_invalid:
  assumes "spec_description_invalid descr"
  shows "new_Task i descr due c = Inl (Error ''Task description cannot be empty.'')"
  using assms
  by (cases descr) (auto simp: new_Task_def spec_description_invalid_def)

lemma new_Task_dueDate_invalid:
  assumes "\<not> spec_description_invalid descr" and "spec_dueDate_invalid due"
  shows "new_Task i descr due c =
           Inl (Error ''Invalid or missing due date. Expected format YYYY-MM-DD.'')"
proof -
  from assms(1) obtain s where s: "descr = JStr s" "trim s \<noteq> []"
    by (cases descr) (auto simp: spec_description_invalid_def)
  from assms(2) have "\<not> truthy due \<or> \<not> dueDate_regex_test due"
    by (cases due) (auto simp: spec_dueDate_invalid_def matches_dueDate_regex_iff)
  with s trim_nonempty_arg [of s] show ?thesis
    by (simp add: new_Task_def)
qed

lemma not_invalid_description:
  "\<not> spec_description_invalid descr \<Longrightarrow> \<exists>s. descr = JStr s \<and> trim s \<noteq> []"
  by (cases descr) (auto simp: spec_description_invalid_def)

lemma not_invalid_dueDate:
  "\<not> spec_dueDate_invalid due \<Longrightarrow> \<exists>d. due = JStr d \<and> spec_date_shape d"
  by (cases due) (auto simp: spec_dueDate_invalid_def)

lemma new_Task_id: "new_Task i descr due c = Inr t \<Longrightarrow> task_id t = i"
  by (auto simp: new_Task_def split: if_splits)

lemma new_Task_invariant:
  assumes "new_Task i descr due c = Inr t"
  shows "spec_task_invariant t"
proof -
  from assms have d: "\<not> spec_description_invalid descr"
    using new_Task_description_invalid [of descr i due c] by auto
  with assms have e: "\<not> spec_dueDate_invalid due"
    using new_Task_dueDate_invalid [of descr due i c] by auto
  from not_invalid_description [OF d] not_invalid_dueDate [OF e]
  obtain s x where sx: "descr = JStr s" "trim s \<noteq> []" "due = JStr x" "spec_date_shape x"
    by blast
  with assms new_Task_valid [of s x i c]
  have "t = \<lparr>task_id = i, description = trim s, dueDate = JStr x, completed = c\<rparr>"
    by simp
  with sx show ?thesis
    by (simp add: spec_task_invariant_def trim_idem trim_not_all_whitespace)
qed

lemma updateDescription_valid:
  assumes "trim s \<noteq> []"
  shows "updateDescription t (JStr s) = Inr (t\<lparr>description := trim s\<rparr>)"
  using assms trim_nonempty_arg [of s] by (simp add: updateDescription_def)

lemma updateDescription_cases:
  "(spec_description_invalid d \<and> updateDescription t d = Inl (Error ''New task description cannot be empty.''))
   \<or> (\<exists>s. d = JStr s \<and> trim s \<noteq> [] \<and> updateDescription t d = Inr (t\<lparr>description := trim s\<rparr>))"
proof (cases "spec_description_invalid d")
  case True
  then have "updateDescription t d = Inl (Error ''New task description cannot be empty.'')"
    by (cases d) (auto simp: updateDescription_def spec_description_invalid_def)
  with True show ?thesis by simp
next
  case False
  from not_invalid_description [OF False] show ?thesis
    by (auto simp: updateDescription_valid)
qed

lemma updateDueDate_cases:
  "updateDueDate t d =
     (if spec_dueDate_invalid d
      then Inl (Error ''Invalid or missing new due date. Expected format YYYY-MM-DD.'')
      else Inr (t\<lparr>dueDate := d\<rparr>))"
proof (cases d)
  case (JStr s)
  then show ?thesis
    using matches_nonempty [of s]
    by (auto simp: updateDueDate_def spec_dueDate_invalid_def matches_dueDate_regex_iff)
qed (simp_all add: updateDueDate_def spec_dueDate_invalid_def)

section \<open>Lookup\<close>

lemma findIndex_Some:
  "findIndex P xs = Some k \<Longrightarrow> k < length xs \<and> P (xs ! k) \<and> (\<forall>j<k. \<not> P (xs ! j))"
proof (induction xs arbitrary: k)
  case Nil
  then show ?case by simp
next
  case (Cons x xs)
  show ?case
  proof (cases "P x")
    case True
    with Cons.prems show ?thesis by simp
  next
    case False
    with Cons.prems obtain k' where k': "findIndex P xs = Some k'" "k = Suc k'"
      by auto
    from Cons.IH [OF k'(1)] False k'(2) show ?thesis
      by (auto simp: less_Suc_eq_0_disj)
  qed
qed

lemma findIndex_None: "findIndex P xs = None \<longleftrightarrow> (\<forall>x\<in>set xs. \<not> P x)"
  by (induction xs) auto

lemma find_findIndex: "List.find P xs = map_option (\<lambda>k. xs ! k) (findIndex P xs)"
  by (induction xs) (auto simp: option.map_comp comp_def)

lemma findTaskRef_Some:
  assumes "findTaskRef m v = Some r"
  shows "r < length (tasks m) \<and> strict_equals_id (task_id (tasks m ! r)) v
         \<and> (\<forall>j<r. \<not> strict_equals_id (task_id (tasks m ! j)) v)"
  using assms findIndex_Some [of "\<lambda>task. strict_equals_id (task_id task) v" "tasks m" r]
  by (simp add: findTaskRef_def split: if_splits)

lemma findTaskById_findTaskRef:
  "findTaskById m v = (Inr (map_option (\<lambda>r. tasks m ! r) (findTaskRef m v)), m)"
  by (simp add: findTaskById_def findTaskRef_def find_findIndex)

lemma strict_equals_id_iff: "strict_equals_id i v \<longleftrightarrow> v = JNum (Finite (of_int i))"
  by (cases "(i, v)" rule: strict_equals_id.cases) auto

lemma is_integer_iff: "is_integer v \<longleftrightarrow> (\<exists>i. v = JNum (Finite (of_int i)))"
proof (cases v)
  case (JNum n)
  show ?thesis
  proof (cases n)
    case (Finite q)
    with JNum show ?thesis
      by (auto intro: exI [of _ "\<lfloor>q\<rfloor>"] dest: sym)
  qed (simp_all add: JNum)
qed simp_all

section \<open>addTask\<close>

text \<open>
  C2. For every valid pair, a description that is a string and is not empty after
  trimming and a due date that is a string of the pattern's shape, \<^verbatim>\<open>addTask\<close> returns
  a task with the trimmed description, the counter's value before the call as its id and
  \<open>completed = False\<close>; the task is appended at the end of the sequence, whose length
  grows by one, and the counter grows by one.
\<close>

theorem addTask_valid:
  assumes "trim s \<noteq> []" and "spec_date_shape d"
  shows "\<exists>t m'. addTask m (JStr s) (JStr d) = (Inr t, m')
           \<and> description t = trim s \<and> task_id t = nextId m \<and> completed t = False
           \<and> dueDate t = JStr d
           \<and> tasks m' = tasks m @ [t]
           \<and> length (tasks m') = length (tasks m) + 1
           \<and> nextId m' = nextId m + 1"
  using new_Task_valid [OF assms, of "nextId m" False]
  by (simp add: addTask_def)

theorem addTask_valid_witness:
  "trim ''  Buy milk '' \<noteq> [] \<and> spec_date_shape ''2024-08-15''
   \<and> (\<exists>t m'. addTask new_TodoListManager (JStr ''  Buy milk '') (JStr ''2024-08-15'') = (Inr t, m')
         \<and> description t = ''Buy milk'' \<and> task_id t = 1 \<and> completed t = False
         \<and> dueDate t = JStr ''2024-08-15''
         \<and> tasks m' = [t] \<and> length (tasks m') = 1 \<and> nextId m' = 2)"
proof -
  have h1: "trim ''  Buy milk '' \<noteq> []" by code_simp
  have h2: "spec_date_shape ''2024-08-15''" by code_simp
  have t: "trim ''  Buy milk '' = ''Buy milk''" by code_simp
  show ?thesis
    using h1 h2 addTask_valid [OF h1 h2, of new_TodoListManager]
    by (simp add: t new_TodoListManager_def)
qed

text \<open>
  C3. \<^verbatim>\<open>addTask\<close> throws exactly when the description is missing, not a string or
  trims to empty, or the due date is missing or does not match the pattern. The error is
  the constructor's validation error: the description's message when the description is
  invalid, the due date's message otherwise. Whenever it throws, the state (so the
  counter and the length of the sequence) is what it was.
\<close>

theorem addTask_throws_iff:
  "(isl (fst (addTask m descr due)) \<longleftrightarrow> spec_description_invalid descr \<or> spec_dueDate_invalid due)
   \<and> (isl (fst (addTask m descr due)) \<longrightarrow>
        fst (addTask m descr due) =
          Inl (Error (if spec_description_invalid descr
                      then ''Task description cannot be empty.''
                      else ''Invalid or missing due date. Expected format YYYY-MM-DD.''))
        \<and> snd (addTask m descr due) = m
        \<and> nextId (snd (addTask m descr due)) = nextId m
        \<and> length (tasks (snd (addTask m descr due))) = length (tasks m))"
proof (cases "spec_description_invalid descr")
  case True
  then show ?thesis
    by (simp add: addTask_def new_Task_description_invalid)
next
  case descr_ok: False
  show ?thesis
  proof (cases "spec_dueDate_invalid due")
    case True
    with descr_ok show ?thesis
      by (simp add: addTask_def new_Task_dueDate_invalid)
  next
    case False
    from not_invalid_description [OF descr_ok] not_invalid_dueDate [OF False]
    obtain s d where "descr = JStr s" "trim s \<noteq> []" "due = JStr d" "spec_date_shape d"
      by blast
    with descr_ok False show ?thesis
      by (simp add: addTask_def new_Task_valid)
  qed
qed

theorem addTask_throws_iff_witness:
  "isl (fst (addTask new_TodoListManager (JStr ''   '') (JStr ''2024-01-01'')))
   \<and> fst (addTask new_TodoListManager (JStr ''   '') (JStr ''2024-01-01''))
       = Inl (Error ''Task description cannot be empty.'')
   \<and> snd (addTask new_TodoListManager (JStr ''   '') (JStr ''2024-01-01'')) = new_TodoListManager
   \<and> isl (fst (addTask new_TodoListManager (JStr ''Report'') (JNum (Finite 20240101))))
   \<and> fst (addTask new_TodoListManager (JStr ''Report'') (JNum (Finite 20240101)))
       = Inl (Error ''Invalid or missing due date. Expected format YYYY-MM-DD.'')
   \<and> \<not> isl (fst (addTask new_TodoListManager (JStr ''Report'') (JStr ''2024-01-01'')))"
proof -
  have a: "spec_description_invalid (JStr ''   '')" by code_simp
  have b: "\<not> spec_description_invalid (JStr ''Report'')" by code_simp
  have c: "spec_dueDate_invalid (JNum (Finite 20240101))" by code_simp
  have d: "\<not> spec_dueDate_invalid (JStr ''2024-01-01'')" by code_simp
  show ?thesis
    using addTask_throws_iff [of new_TodoListManager "JStr ''   ''" "JStr ''2024-01-01''"]
      addTask_throws_iff [of new_TodoListManager "JStr ''Report''" "JNum (Finite 20240101)"]
      addTask_throws_iff [of new_TodoListManager "JStr ''Report''" "JStr ''2024-01-01''"]
      a b c d
    by simp
qed

section \<open>findTaskById\<close>

text \<open>
  C7. \<^verbatim>\<open>_findTaskById\<close> never throws: every call returns, and leaves the state as it
  was. For an argument that is not an integer the result is \<^verbatim>\<open>undefined\<close>. For an integer
  argument the result is the first task of the sequence whose id is the argument, or
  \<^verbatim>\<open>undefined\<close> when no stored task has that id.
\<close>

theorem findTaskById_total:
  "(\<exists>r. findTaskById m v = (Inr r, m))
   \<and> (\<not> is_integer v \<longrightarrow> findTaskById m v = (Inr None, m))
   \<and> (\<forall>i. v = JNum (Finite (of_int i)) \<longrightarrow>
        findTaskById m v = (Inr (List.find (\<lambda>task. task_id task = i) (tasks m)), m)
        \<and> (case List.find (\<lambda>task. task_id task = i) (tasks m) of
             None \<Rightarrow> \<forall>t\<in>set (tasks m). task_id t \<noteq> i
           | Some t \<Rightarrow> \<exists>k<length (tasks m). tasks m ! k = t \<and> task_id t = i
                          \<and> (\<forall>j<k. task_id (tasks m ! j) \<noteq> i)))"
proof (intro conjI allI impI)
  show "\<exists>r. findTaskById m v = (Inr r, m)"
    by (simp add: findTaskById_def)
next
  assume "\<not> is_integer v"
  then have "\<And>i. \<not> strict_equals_id i v"
    by (auto simp: strict_equals_id_iff is_integer_iff)
  then show "findTaskById m v = (Inr None, m)"
    by (simp add: findTaskById_def find_None_iff)
next
  fix i assume v: "v = JNum (Finite (of_int i))"
  have eq: "(\<lambda>task. strict_equals_id (task_id task) v) = (\<lambda>task. task_id task = i)"
    by (auto simp: v)
  show "findTaskById m v = (Inr (List.find (\<lambda>task. task_id task = i) (tasks m)), m)"
    by (simp add: findTaskById_def eq) (simp add: v)
  show "case List.find (\<lambda>task. task_id task = i) (tasks m) of
             None \<Rightarrow> \<forall>t\<in>set (tasks m). task_id t \<noteq> i
           | Some t \<Rightarrow> \<exists>k<length (tasks m). tasks m ! k = t \<and> task_id t = i
                          \<and> (\<forall>j<k. task_id (tasks m ! j) \<noteq> i)"
    by (auto simp: find_None_iff find_Some_iff split: option.splits)
qed

theorem findTaskById_total_witness:
  "\<not> is_integer (JNum (Finite (3 / 2)))
   \<and> findTaskById example_manager (JNum (Finite (3 / 2)))
       = (Inr None, example_manager)
   \<and> \<not> is_integer (JStr ''2'')
   \<and> findTaskById example_manager (JStr ''2'')
       = (Inr None, example_manager)
   \<and> findTaskById example_manager (JNum (Finite (of_int 2)))
       = (Inr (Some (example_tasks ! 1)), example_manager)
   \<and> findTaskById example_manager (JNum (Finite (of_int 7)))
       = (Inr None, example_manager)"
proof -
  let ?m = example_manager
  have n1: "\<not> is_integer (JNum (Finite (3 / 2)))" by code_simp
  have n2: "\<not> is_integer (JStr ''2'')" by simp
  have f2: "List.find (\<lambda>task. task_id task = 2) (tasks example_manager) = Some (example_tasks ! 1)"
    by code_simp
  have f7: "List.find (\<lambda>task. task_id task = 7) (tasks example_manager) = None"
    by code_simp
  have a: "findTaskById ?m (JNum (Finite (3 / 2))) = (Inr None, ?m)"
    using findTaskById_total [of ?m "JNum (Finite (3 / 2))"] n1 by blast
  have b: "findTaskById ?m (JStr ''2'') = (Inr None, ?m)"
    using findTaskById_total [of ?m "JStr ''2''"] n2 by blast
  have c: "findTaskById ?m (JNum (Finite (of_int 2))) = (Inr (Some (example_tasks ! 1)), ?m)"
    using findTaskById_total [of ?m "JNum (Finite (of_int 2))"] f2 by simp
  have d: "findTaskById ?m (JNum (Finite (of_int 7))) = (Inr None, ?m)"
    using findTaskById_total [of ?m "JNum (Finite (of_int 7))"] f7 by simp
  from n1 n2 a b c d show ?thesis
    by blast
qed

section \<open>listTasks\<close>

lemma filter_in_shuffles:
  "xs \<in> shuffles (filter P xs) (filter (\<lambda>x. \<not> P x) xs)"
  by (induction xs) (auto intro: Cons_in_shuffles_leftI Cons_in_shuffles_rightI)

lemma mset_filter_partition:
  "mset xs = mset (filter P xs) + mset (filter (\<lambda>x. \<not> P x) xs)"
  by (induction xs) auto

text \<open>
  C4. In every state, the listings for \<^verbatim>\<open>completed\<close> and \<^verbatim>\<open>pending\<close> partition the
  sequence: every stored task is in exactly one of the two, no task is in both, the two
  together hold each task as often as the sequence does, each is a subsequence of the
  sequence (its order is kept), and the listing for \<^verbatim>\<open>all\<close>, which is the sequence, is an
  interleaving of the two that keeps the order of each.
\<close>

theorem listTasks_partition:
  "\<exists>c p a. listTasks m (JStr ''completed'') = (Inr c, m)
     \<and> listTasks m (JStr ''pending'') = (Inr p, m)
     \<and> listTasks m (JStr ''all'') = (Inr a, m)
     \<and> a = tasks m
     \<and> (\<forall>t\<in>set a. (t \<in> set c) \<noteq> (t \<in> set p))
     \<and> set c \<inter> set p = {}
     \<and> mset a = mset c + mset p
     \<and> subseq c a \<and> subseq p a
     \<and> a \<in> shuffles c p"
proof -
  let ?c = "filter (\<lambda>task. completed task) (tasks m)"
  let ?p = "filter (\<lambda>task. \<not> completed task) (tasks m)"
  have lc: "toLowerCase ''completed'' = ''completed''" by code_simp
  have lp: "toLowerCase ''pending'' = ''pending''" by code_simp
  have la: "toLowerCase ''all'' = ''all''" by code_simp
  have c: "listTasks m (JStr ''completed'') = (Inr ?c, m)"
    by (simp add: listTasks_def lc)
  have p: "listTasks m (JStr ''pending'') = (Inr ?p, m)"
    by (simp add: listTasks_def lp)
  have a: "listTasks m (JStr ''all'') = (Inr (tasks m), m)"
    by (simp add: listTasks_def la)
  have one: "\<forall>t\<in>set (tasks m). (t \<in> set ?c) \<noteq> (t \<in> set ?p)"
    by auto
  have disj: "set ?c \<inter> set ?p = {}"
    by auto
  have sub: "subseq ?c (tasks m)" "subseq ?p (tasks m)"
    by simp_all
  from c p a one disj sub mset_filter_partition [of "tasks m" completed]
    filter_in_shuffles [of "tasks m" completed]
  show ?thesis
    by blast
qed

theorem listTasks_partition_witness:
  "listTasks example_manager (JStr ''completed'')
     = (Inr [example_tasks ! 0, example_tasks ! 2], example_manager)
   \<and> listTasks example_manager (JStr ''pending'')
     = (Inr [example_tasks ! 1], example_manager)
   \<and> example_tasks \<in> shuffles [example_tasks ! 0, example_tasks ! 2] [example_tasks ! 1]"
proof -
  have c: "listTasks example_manager (JStr ''completed'')
     = (Inr [example_tasks ! 0, example_tasks ! 2], example_manager)"
    by code_simp
  have p: "listTasks example_manager (JStr ''pending'')
     = (Inr [example_tasks ! 1], example_manager)"
    by code_simp
  show ?thesis
    using listTasks_partition [of example_manager]
    by (simp add: c p tasks_example_manager)
qed





section \<open>Due dates\<close>

text \<open>
  C6. The validation of a due date looks at the shape of the string only. The pattern
  accepts exactly the strings of four digits, dash, two digits, dash, two digits. Such a
  string is accepted by the constructor, by \<^verbatim>\<open>updateDueDate\<close> and by \<^verbatim>\<open>updateTask\<close> and
  stored as it is, whatever month and day it names; every other string is rejected with
  the validation error.
\<close>

theorem dueDate_validation_syntactic:
  "dueDate_regex_test (JStr s) = spec_date_shape s
   \<and> (spec_date_shape s \<longrightarrow>
        (\<not> spec_description_invalid descr \<longrightarrow>
           (\<exists>t. new_Task i descr (JStr s) c = Inr t \<and> dueDate t = JStr s))
        \<and> updateDueDate t (JStr s) = Inr (t\<lparr>dueDate := JStr s\<rparr>)
        \<and> (findTaskRef m v = Some r \<longrightarrow> upd_dueDate upd = Some (JStr s) \<longrightarrow>
             (case upd_description upd of None \<Rightarrow> True | Some x \<Rightarrow> \<not> spec_description_invalid x) \<longrightarrow>
             (\<exists>t'. updateTask m v upd = (Inr t', m\<lparr>tasks := (tasks m)[r := t']\<rparr>)
                   \<and> dueDate t' = JStr s)))
   \<and> (\<not> spec_date_shape s \<longrightarrow>
        (\<not> spec_description_invalid descr \<longrightarrow>
           new_Task i descr (JStr s) c
             = Inl (Error ''Invalid or missing due date. Expected format YYYY-MM-DD.''))
        \<and> updateDueDate t (JStr s)
             = Inl (Error ''Invalid or missing new due date. Expected format YYYY-MM-DD.'')
        \<and> (findTaskRef m v = Some r \<longrightarrow> upd_dueDate upd = Some (JStr s) \<longrightarrow>
             (case upd_description upd of None \<Rightarrow> True | Some x \<Rightarrow> \<not> spec_description_invalid x) \<longrightarrow>
             fst (updateTask m v upd)
               = Inl (Error ''Invalid or missing new due date. Expected format YYYY-MM-DD.'')))"
proof (intro conjI impI)
  show "dueDate_regex_test (JStr s) = spec_date_shape s"
    by (simp add: matches_dueDate_regex_iff)
next
  assume "spec_date_shape s" "\<not> spec_description_invalid descr"
  then show "\<exists>t. new_Task i descr (JStr s) c = Inr t \<and> dueDate t = JStr s"
    using not_invalid_description [of descr] by (auto simp: new_Task_valid)
next
  assume "spec_date_shape s"
  then show "updateDueDate t (JStr s) = Inr (t\<lparr>dueDate := JStr s\<rparr>)"
    by (simp add: updateDueDate_cases spec_dueDate_invalid_def)
next
  assume a: "spec_date_shape s" "findTaskRef m v = Some r" "upd_dueDate upd = Some (JStr s)"
    "case upd_description upd of None \<Rightarrow> True | Some x \<Rightarrow> \<not> spec_description_invalid x"
  show "\<exists>t'. updateTask m v upd = (Inr t', m\<lparr>tasks := (tasks m)[r := t']\<rparr>) \<and> dueDate t' = JStr s"
  proof (cases "upd_description upd")
    case None
    with a show ?thesis
      by (simp add: updateTask_def updateDueDate_cases spec_dueDate_invalid_def)
  next
    case (Some x)
    with a(4) updateDescription_cases [of x "tasks m ! r"]
    obtain y where "updateDescription (tasks m ! r) x = Inr ((tasks m ! r)\<lparr>description := trim y\<rparr>)"
      by auto
    with a Some show ?thesis
      by (simp add: updateTask_def updateDueDate_cases spec_dueDate_invalid_def)
  qed
next
  assume "\<not> spec_date_shape s" "\<not> spec_description_invalid descr"
  then show "new_Task i descr (JStr s) c
             = Inl (Error ''Invalid or missing due date. Expected format YYYY-MM-DD.'')"
    by (simp add: new_Task_dueDate_invalid spec_dueDate_invalid_def)
next
  assume "\<not> spec_date_shape s"
  then show "updateDueDate t (JStr s)
             = Inl (Error ''Invalid or missing new due date. Expected format YYYY-MM-DD.'')"
    by (simp add: updateDueDate_cases spec_dueDate_invalid_def)
next
  assume a: "\<not> spec_date_shape s" "findTaskRef m v = Some r" "upd_dueDate upd = Some (JStr s)"
    "case upd_description upd of None \<Rightarrow> True | Some x \<Rightarrow> \<not> spec_description_invalid x"
  show "fst (updateTask m v upd)
               = Inl (Error ''Invalid or missing new due date. Expected format YYYY-MM-DD.'')"
  proof (cases "upd_description upd")
    case None
    with a show ?thesis
      by (simp add: updateTask_def updateDueDate_cases spec_dueDate_invalid_def)
  next
    case (Some x)
    with a(4) updateDescription_cases [of x "tasks m ! r"]
    obtain y where "updateDescription (tasks m ! r) x = Inr ((tasks m ! r)\<lparr>description := trim y\<rparr>)"
      by auto
    with a Some show ?thesis
      by (simp add: updateTask_def updateDueDate_cases spec_dueDate_invalid_def)
  qed
qed

theorem dueDate_validation_syntactic_witness:
  "spec_date_shape ''2024-13-32''
   \<and> dueDate_regex_test (JStr ''2024-13-32'')
   \<and> \<not> spec_description_invalid (JStr ''Report'')
   \<and> (\<exists>t. new_Task 1 (JStr ''Report'') (JStr ''2024-13-32'') False = Inr t
          \<and> dueDate t = JStr ''2024-13-32'')
   \<and> updateDueDate (example_tasks ! 0) (JStr ''2024-13-32'')
       = Inr ((example_tasks ! 0)\<lparr>dueDate := JStr ''2024-13-32''\<rparr>)
   \<and> \<not> spec_date_shape ''2024-1-05''
   \<and> \<not> dueDate_regex_test (JStr ''2024-1-05'')
   \<and> new_Task 1 (JStr ''Report'') (JStr ''2024-1-05'') False
       = Inl (Error ''Invalid or missing due date. Expected format YYYY-MM-DD.'')
   \<and> updateDueDate (example_tasks ! 0) (JStr ''2024-1-05'')
       = Inl (Error ''Invalid or missing new due date. Expected format YYYY-MM-DD.'')
   \<and> findTaskRef example_manager (JNum (Finite 2)) = Some 1
   \<and> (\<exists>t'. updateTask example_manager (JNum (Finite 2))
               \<lparr>upd_description = None, upd_dueDate = Some (JStr ''2024-13-32'')\<rparr>
             = (Inr t', example_manager\<lparr>tasks := (tasks example_manager)[1 := t']\<rparr>)
           \<and> dueDate t' = JStr ''2024-13-32'')
   \<and> fst (updateTask example_manager (JNum (Finite 2))
               \<lparr>upd_description = None, upd_dueDate = Some (JStr ''2024-1-05'')\<rparr>)
       = Inl (Error ''Invalid or missing new due date. Expected format YYYY-MM-DD.'')"
proof -
  let ?w = "JNum (Finite 2)"
  let ?good = "\<lparr>upd_description = None, upd_dueDate = Some (JStr ''2024-13-32'')\<rparr>"
  let ?bad = "\<lparr>upd_description = None, upd_dueDate = Some (JStr ''2024-1-05'')\<rparr>"
  have s1: "spec_date_shape ''2024-13-32''" by code_simp
  have s2: "\<not> spec_date_shape ''2024-1-05''" by code_simp
  have d: "\<not> spec_description_invalid (JStr ''Report'')" by code_simp
  have g: "findTaskRef example_manager ?w = Some 1" by code_simp
  note t1 = dueDate_validation_syntactic [of "''2024-13-32''" "JStr ''Report''" 1 False
      "example_tasks ! 0" example_manager ?w 1 ?good]
  note t2 = dueDate_validation_syntactic [of "''2024-1-05''" "JStr ''Report''" 1 False
      "example_tasks ! 0" example_manager ?w 1 ?bad]
  from t1 s1 have r1: "dueDate_regex_test (JStr ''2024-13-32'')" by blast
  from t2 s2 have r2: "\<not> dueDate_regex_test (JStr ''2024-1-05'')" by blast
  from t1 s1 d have n1: "\<exists>t. new_Task 1 (JStr ''Report'') (JStr ''2024-13-32'') False = Inr t
          \<and> dueDate t = JStr ''2024-13-32''" by blast
  from t1 s1 have u1: "updateDueDate (example_tasks ! 0) (JStr ''2024-13-32'')
       = Inr ((example_tasks ! 0)\<lparr>dueDate := JStr ''2024-13-32''\<rparr>)" by blast
  from t2 s2 d have n2: "new_Task 1 (JStr ''Report'') (JStr ''2024-1-05'') False
       = Inl (Error ''Invalid or missing due date. Expected format YYYY-MM-DD.'')" by blast
  from t2 s2 have u2: "updateDueDate (example_tasks ! 0) (JStr ''2024-1-05'')
       = Inl (Error ''Invalid or missing new due date. Expected format YYYY-MM-DD.'')" by blast
  from t1 s1 g have m1: "\<exists>t'. updateTask example_manager ?w ?good
             = (Inr t', example_manager\<lparr>tasks := (tasks example_manager)[1 := t']\<rparr>)
           \<and> dueDate t' = JStr ''2024-13-32''" by simp
  from t2 s2 g have m2: "fst (updateTask example_manager ?w ?bad)
       = Inl (Error ''Invalid or missing new due date. Expected format YYYY-MM-DD.'')" by simp
  from s1 r1 d n1 u1 s2 r2 n2 u2 g m1 m2 show ?thesis
    by (intro conjI)
qed

section \<open>markTaskComplete and markTaskIncomplete\<close>

lemma only_completed_changedI:
  assumes "findTaskRef m v = Some k"
  shows "spec_only_completed_changed m v b ((tasks m ! k)\<lparr>completed := b\<rparr>)
           (m\<lparr>tasks := (tasks m)[k := (tasks m ! k)\<lparr>completed := b\<rparr>]\<rparr>)"
  unfolding spec_only_completed_changed_def
  using findTaskRef_Some [OF assms] by (intro exI [of _ k]) simp

text \<open>
  C10. When \<^verbatim>\<open>markTaskComplete\<close> or \<^verbatim>\<open>markTaskIncomplete\<close> returns, the state differs
  from the one before in the \<^verbatim>\<open>completed\<close> flag of one task only, the first whose id is
  the argument: that task keeps its id, description and due date and is the task
  returned, every other position holds the task it held, the length is the same and so
  is the counter.
\<close>

theorem markTask_only_completed:
  "(markTaskComplete m v = (Inr t, m') \<longrightarrow> spec_only_completed_changed m v True t m')
   \<and> (markTaskIncomplete m v = (Inr t, m') \<longrightarrow> spec_only_completed_changed m v False t m')"
proof (intro conjI impI)
  assume a: "markTaskComplete m v = (Inr t, m')"
  then obtain k where k: "findTaskRef m v = Some k"
    by (auto simp: markTaskComplete_def split: option.splits)
  with a have "t = (tasks m ! k)\<lparr>completed := True\<rparr>"
    and "m' = m\<lparr>tasks := (tasks m)[k := (tasks m ! k)\<lparr>completed := True\<rparr>]\<rparr>"
    by (auto simp: markTaskComplete_def markComplete_def Let_def)
  with only_completed_changedI [OF k, of True]
  show "spec_only_completed_changed m v True t m'" by simp
next
  assume a: "markTaskIncomplete m v = (Inr t, m')"
  then obtain k where k: "findTaskRef m v = Some k"
    by (auto simp: markTaskIncomplete_def split: option.splits)
  with a have "t = (tasks m ! k)\<lparr>completed := False\<rparr>"
    and "m' = m\<lparr>tasks := (tasks m)[k := (tasks m ! k)\<lparr>completed := False\<rparr>]\<rparr>"
    by (auto simp: markTaskIncomplete_def markIncomplete_def Let_def)
  with only_completed_changedI [OF k, of False]
  show "spec_only_completed_changed m v False t m'" by simp
qed

theorem markTask_only_completed_witness:
  "markTaskComplete example_manager (JNum (Finite 2))
     = (Inr ((example_tasks ! 1)\<lparr>completed := True\<rparr>),
        example_manager\<lparr>tasks := example_tasks[1 := (example_tasks ! 1)\<lparr>completed := True\<rparr>]\<rparr>)
   \<and> spec_only_completed_changed example_manager (JNum (Finite 2)) True
        ((example_tasks ! 1)\<lparr>completed := True\<rparr>)
        (example_manager\<lparr>tasks := example_tasks[1 := (example_tasks ! 1)\<lparr>completed := True\<rparr>]\<rparr>)
   \<and> markTaskIncomplete example_manager (JNum (Finite 3))
     = (Inr ((example_tasks ! 2)\<lparr>completed := False\<rparr>),
        example_manager\<lparr>tasks := example_tasks[2 := (example_tasks ! 2)\<lparr>completed := False\<rparr>]\<rparr>)
   \<and> spec_only_completed_changed example_manager (JNum (Finite 3)) False
        ((example_tasks ! 2)\<lparr>completed := False\<rparr>)
        (example_manager\<lparr>tasks := example_tasks[2 := (example_tasks ! 2)\<lparr>completed := False\<rparr>]\<rparr>)"
proof -
  let ?t1 = "(example_tasks ! 1)\<lparr>completed := True\<rparr>"
  let ?m1 = "example_manager\<lparr>tasks := example_tasks[1 := ?t1]\<rparr>"
  let ?t2 = "(example_tasks ! 2)\<lparr>completed := False\<rparr>"
  let ?m2 = "example_manager\<lparr>tasks := example_tasks[2 := ?t2]\<rparr>"
  have a: "markTaskComplete example_manager (JNum (Finite 2)) = (Inr ?t1, ?m1)" by code_simp
  have b: "markTaskIncomplete example_manager (JNum (Finite 3)) = (Inr ?t2, ?m2)" by code_simp
  have c: "spec_only_completed_changed example_manager (JNum (Finite 2)) True ?t1 ?m1"
    by (rule markTask_only_completed [THEN conjunct1, THEN mp, OF a])
  have d: "spec_only_completed_changed example_manager (JNum (Finite 3)) False ?t2 ?m2"
    by (rule markTask_only_completed [THEN conjunct2, THEN mp, OF b])
  from a c b d show ?thesis
    by (intro conjI)
qed

section \<open>Calls that throw\<close>









section \<open>The shape of a step\<close>

lemma task_exec_id: "task_id (task_exec t c) = task_id t"
  by (cases c) (auto simp: markComplete_def markIncomplete_def updateDescription_def
      updateDueDate_def)

lemma task_execs_id: "task_id (foldl task_exec t cs) = task_id t"
  by (induction cs arbitrary: t) (simp_all add: task_exec_id)

lemma task_exec_invariant:
  assumes "spec_task_invariant t"
  shows "spec_task_invariant (task_exec t c)"
proof (cases c)
  case MarkComplete
  with assms show ?thesis by (simp add: spec_task_invariant_def markComplete_def)
next
  case MarkIncomplete
  with assms show ?thesis by (simp add: spec_task_invariant_def markIncomplete_def)
next
  case (UpdateDescription d)
  from updateDescription_cases [of d t] show ?thesis
  proof
    assume "spec_description_invalid d
      \<and> updateDescription t d = Inl (Error ''New task description cannot be empty.'')"
    with assms UpdateDescription show ?thesis by simp
  next
    assume "\<exists>s. d = JStr s \<and> trim s \<noteq> []
      \<and> updateDescription t d = Inr (t\<lparr>description := trim s\<rparr>)"
    with assms UpdateDescription show ?thesis
      by (auto simp: spec_task_invariant_def trim_idem trim_not_all_whitespace)
  qed
next
  case (UpdateDueDate d)
  show ?thesis
  proof (cases "spec_dueDate_invalid d")
    case True
    with assms UpdateDueDate show ?thesis by (simp add: updateDueDate_cases)
  next
    case False
    from not_invalid_dueDate [OF False] False assms UpdateDueDate show ?thesis
      by (auto simp: updateDueDate_cases spec_task_invariant_def)
  qed
qed

lemma task_execs_invariant:
  "spec_task_invariant t \<Longrightarrow> spec_task_invariant (foldl task_exec t cs)"
  by (induction cs arbitrary: t) (simp_all add: task_exec_invariant)

lemma touchedI:
  "r < length (tasks m) \<Longrightarrow> m' = m\<lparr>tasks := (tasks m)[r := foldl task_exec (tasks m ! r) cs]\<rparr>
     \<Longrightarrow> touched m m'"
  unfolding touched_def by blast

lemma addTask_shape: "snd (addTask m descr due) = m \<or> appended m (snd (addTask m descr due))"
  by (auto simp: addTask_def appended_def split: sum.splits)

lemma markTaskComplete_shape:
  "snd (markTaskComplete m v) = m \<or> touched m (snd (markTaskComplete m v))"
proof (cases "findTaskRef m v")
  case None
  then show ?thesis by (simp add: markTaskComplete_def)
next
  case (Some r)
  have "touched m (snd (markTaskComplete m v))"
    by (rule touchedI [of r _ _ "[MarkComplete]"])
      (use Some findTaskRef_Some [OF Some] in \<open>simp_all add: markTaskComplete_def Let_def\<close>)
  then show ?thesis ..
qed

lemma markTaskIncomplete_shape:
  "snd (markTaskIncomplete m v) = m \<or> touched m (snd (markTaskIncomplete m v))"
proof (cases "findTaskRef m v")
  case None
  then show ?thesis by (simp add: markTaskIncomplete_def)
next
  case (Some r)
  have "touched m (snd (markTaskIncomplete m v))"
    by (rule touchedI [of r _ _ "[MarkIncomplete]"])
      (use Some findTaskRef_Some [OF Some] in \<open>simp_all add: markTaskIncomplete_def Let_def\<close>)
  then show ?thesis ..
qed

lemma deleteTask_shape: "snd (deleteTask m v) = m \<or> removed m (snd (deleteTask m v))"
proof (cases "findIndex (\<lambda>task. strict_equals_id (task_id task) v) (tasks m)")
  case None
  then show ?thesis by (simp add: deleteTask_def)
next
  case (Some k)
  from findIndex_Some [OF Some] Some show ?thesis
    by (auto simp: deleteTask_def removed_def)
qed

lemma updateTask_shape: "snd (updateTask m v upd) = m \<or> touched m (snd (updateTask m v upd))"
proof (cases "findTaskRef m v")
  case None
  then show ?thesis by (simp add: updateTask_def)
next
  case (Some r)
  note r = findTaskRef_Some [OF Some, THEN conjunct1]
  let ?t = "tasks m ! r"
  let ?c1 = "case upd_description upd of None \<Rightarrow> [] | Some d \<Rightarrow> [UpdateDescription d]"
  let ?c2 = "case upd_dueDate upd of None \<Rightarrow> [] | Some d \<Rightarrow> [UpdateDueDate d]"
  show ?thesis
  proof (cases "case upd_description upd of None \<Rightarrow> Inr ?t | Some d \<Rightarrow> updateDescription ?t d")
    case (Inl e)
    with Some show ?thesis by (simp add: updateTask_def)
  next
    case (Inr t1)
    then have t1: "t1 = foldl task_exec ?t ?c1"
      by (auto split: option.splits)
    show ?thesis
    proof (cases "case upd_dueDate upd of None \<Rightarrow> Inr t1 | Some d \<Rightarrow> updateDueDate t1 d")
      case (Inl e)
      with Some Inr have "snd (updateTask m v upd) = m\<lparr>tasks := (tasks m)[r := t1]\<rparr>"
        by (simp add: updateTask_def)
      with t1 r have "touched m (snd (updateTask m v upd))"
        by (intro touchedI [of r _ _ ?c1]) simp_all
      then show ?thesis ..
    next
      case t2: (Inr t2)
      then have "t2 = foldl task_exec t1 ?c2"
        by (auto split: option.splits)
      with t1 have "t2 = foldl task_exec ?t (?c1 @ ?c2)"
        by simp
      moreover from Some Inr t2 have "snd (updateTask m v upd) = m\<lparr>tasks := (tasks m)[r := t2]\<rparr>"
        by (simp add: updateTask_def)
      ultimately have "touched m (snd (updateTask m v upd))"
        using r by (intro touchedI [of r _ _ "?c1 @ ?c2"]) simp_all
      then show ?thesis ..
    qed
  qed
qed

lemma exec_shape:
  "exec m c = m \<or> appended m (exec m c) \<or> removed m (exec m c) \<or> touched m (exec m c)"
proof (cases c)
  case (AddTask descr due)
  with addTask_shape [of m descr due] show ?thesis by auto
next
  case (FindTaskById v)
  then show ?thesis by (simp add: findTaskById_def)
next
  case (MarkTaskComplete v)
  with markTaskComplete_shape [of m v] show ?thesis by auto
next
  case (MarkTaskIncomplete v)
  with markTaskIncomplete_shape [of m v] show ?thesis by auto
next
  case (ListTasks v)
  then show ?thesis by (cases v) (simp_all add: listTasks_def)
next
  case (DeleteTask v)
  with deleteTask_shape [of m v] show ?thesis by auto
next
  case (UpdateTask v upd)
  with updateTask_shape [of m v upd] show ?thesis by auto
next
  case (OnTask k tc)
  show ?thesis
  proof (cases "k < length (tasks m)")
    case True
    have "touched m (exec m c)"
      by (rule touchedI [of k _ _ "[tc]"]) (use True OnTask in simp_all)
    then show ?thesis by simp
  next
    case False
    with OnTask show ?thesis by simp
  qed
qed

section \<open>Invariants of the reachable states\<close>

lemma run_Nil: "run m [] = m"
  by (simp add: run_def)

lemma run_Cons: "run m (c # cs) = run (exec m c) cs"
  by (simp add: run_def)

lemma exec_tasks_invariant:
  assumes "list_all spec_task_invariant (tasks m)"
  shows "list_all spec_task_invariant (tasks (exec m c))"
proof -
  from exec_shape [of m c] consider "exec m c = m" | "appended m (exec m c)"
    | "removed m (exec m c)" | "touched m (exec m c)" by blast
  then show ?thesis
  proof cases
    case 1
    with assms show ?thesis by simp
  next
    case 2
    then obtain descr due t where "new_Task (nextId m) descr due False = Inr t"
      "exec m c = m\<lparr>tasks := tasks m @ [t], nextId := nextId m + 1\<rparr>"
      unfolding appended_def by blast
    with assms new_Task_invariant [of "nextId m" descr due False t] show ?thesis
      by simp
  next
    case 3
    then obtain k where "exec m c = m\<lparr>tasks := take k (tasks m) @ drop (Suc k) (tasks m)\<rparr>"
      unfolding removed_def by blast
    with assms show ?thesis
      by (auto simp: list_all_iff dest: in_set_takeD in_set_dropD)
  next
    case 4
    then obtain r cs where r: "r < length (tasks m)"
      and e: "exec m c = m\<lparr>tasks := (tasks m)[r := foldl task_exec (tasks m ! r) cs]\<rparr>"
      unfolding touched_def by blast
    from assms r have "spec_task_invariant (tasks m ! r)"
      by (simp add: list_all_length)
    then have "spec_task_invariant (foldl task_exec (tasks m ! r) cs)"
      by (rule task_execs_invariant)
    with assms e show ?thesis
      by (auto simp: list_all_iff dest: set_update_subset_insert [THEN subsetD])
  qed
qed

lemma run_tasks_invariant:
  "list_all spec_task_invariant (tasks m) \<Longrightarrow> list_all spec_task_invariant (tasks (run m cs))"
  unfolding run_def by (induction cs arbitrary: m) (simp_all add: exec_tasks_invariant)

text \<open>
  C9. A task that the constructor returns satisfies the invariant (a description that
  is not empty, is its own trim and is not white space only; a due date that is a string
  of the pattern's shape), and so it does after any sequence of calls of its methods.
  Every method of a task preserves the invariant, every call on a manager preserves it
  for all stored tasks, and it holds for all stored tasks of every state reachable from
  a new manager.
\<close>

theorem task_invariant_preserved:
  "(new_Task i descr due c = Inr t \<longrightarrow>
      spec_task_invariant t \<and> spec_task_invariant (foldl task_exec t tcs))
   \<and> (spec_task_invariant t \<longrightarrow> spec_task_invariant (task_exec t tc))
   \<and> (list_all spec_task_invariant (tasks m) \<longrightarrow>
        list_all spec_task_invariant (tasks (exec m mc)))
   \<and> list_all spec_task_invariant (tasks (run new_TodoListManager cs))"
proof (intro conjI impI)
  assume "new_Task i descr due c = Inr t"
  then show "spec_task_invariant t"
    by (rule new_Task_invariant)
  then show "spec_task_invariant (foldl task_exec t tcs)"
    by (rule task_execs_invariant)
next
  assume "spec_task_invariant t"
  then show "spec_task_invariant (task_exec t tc)"
    by (rule task_exec_invariant)
next
  assume "list_all spec_task_invariant (tasks m)"
  then show "list_all spec_task_invariant (tasks (exec m mc))"
    by (rule exec_tasks_invariant)
next
  have "list_all spec_task_invariant (tasks new_TodoListManager)"
    by (simp add: new_TodoListManager_def)
  then show "list_all spec_task_invariant (tasks (run new_TodoListManager cs))"
    by (rule run_tasks_invariant)
qed

theorem task_invariant_preserved_witness:
  "new_Task 7 (JStr '' Buy milk '') (JStr ''2024-13-32'') False
     = Inr \<lparr>task_id = 7, description = ''Buy milk'', dueDate = JStr ''2024-13-32'', completed = False\<rparr>
   \<and> spec_task_invariant
        \<lparr>task_id = 7, description = ''Buy milk'', dueDate = JStr ''2024-13-32'', completed = False\<rparr>
   \<and> spec_task_invariant
        (foldl task_exec
           \<lparr>task_id = 7, description = ''Buy milk'', dueDate = JStr ''2024-13-32'', completed = False\<rparr>
           [UpdateDescription (JStr ''   ''), UpdateDueDate (JStr ''2025-01-01''), MarkComplete])
   \<and> spec_task_invariant (task_exec (example_tasks ! 0) (UpdateDescription (JStr '' Tea '')))
   \<and> list_all spec_task_invariant (tasks example_manager)
   \<and> list_all spec_task_invariant (tasks (exec example_manager (UpdateTask (JNum (Finite 2)) example_updates)))"
proof -
  let ?t = "\<lparr>task_id = 7, description = ''Buy milk'', dueDate = JStr ''2024-13-32'', completed = False\<rparr>"
  have n: "new_Task 7 (JStr '' Buy milk '') (JStr ''2024-13-32'') False = Inr ?t"
    by code_simp
  have i0: "spec_task_invariant (example_tasks ! 0)" by code_simp
  have im: "list_all spec_task_invariant (tasks example_manager)" by code_simp
  note th = task_invariant_preserved [of 7 "JStr '' Buy milk ''" "JStr ''2024-13-32''" False ?t
      "[UpdateDescription (JStr ''   ''), UpdateDueDate (JStr ''2025-01-01''), MarkComplete]"]
  from th n have a: "spec_task_invariant ?t"
    "spec_task_invariant (foldl task_exec ?t
        [UpdateDescription (JStr ''   ''), UpdateDueDate (JStr ''2025-01-01''), MarkComplete])"
    by blast+
  from task_invariant_preserved [of _ _ _ _ "example_tasks ! 0" _ "UpdateDescription (JStr '' Tea '')"
      example_manager "UpdateTask (JNum (Finite 2)) example_updates"] i0 im
  have b: "spec_task_invariant (task_exec (example_tasks ! 0) (UpdateDescription (JStr '' Tea '')))"
    "list_all spec_task_invariant (tasks (exec example_manager (UpdateTask (JNum (Finite 2)) example_updates)))"
    by blast+
  from n a b im show ?thesis
    by blast
qed

lemma touched_ids:
  assumes "touched m m'"
  shows "map task_id (tasks m') = map task_id (tasks m)" and "nextId m' = nextId m"
proof -
  from assms obtain r cs where r: "r < length (tasks m)"
    and e: "m' = m\<lparr>tasks := (tasks m)[r := foldl task_exec (tasks m ! r) cs]\<rparr>"
    unfolding touched_def by blast
  from e r show "map task_id (tasks m') = map task_id (tasks m)"
    by (simp add: map_update task_execs_id list_update_same_conv)
  from e show "nextId m' = nextId m" by simp
qed

lemma distinct_remove_nth: "distinct xs \<Longrightarrow> distinct (take k xs @ drop (Suc k) xs)"
proof (induction xs arbitrary: k)
  case Nil
  then show ?case by simp
next
  case (Cons x xs)
  then show ?case
    by (cases k) (auto dest: in_set_takeD in_set_dropD)
qed

lemma exec_ids_ok:
  assumes "ids_ok m"
  shows "ids_ok (exec m c)"
proof -
  from exec_shape [of m c] consider "exec m c = m" | "appended m (exec m c)"
    | "removed m (exec m c)" | "touched m (exec m c)" by blast
  then show ?thesis
  proof cases
    case 1
    with assms show ?thesis by simp
  next
    case 2
    then obtain descr due t where t: "new_Task (nextId m) descr due False = Inr t"
      and e: "exec m c = m\<lparr>tasks := tasks m @ [t], nextId := nextId m + 1\<rparr>"
      unfolding appended_def by blast
    from new_Task_id [OF t] assms e show ?thesis
      by (auto simp: ids_ok_def list_all_iff)
  next
    case 3
    then obtain k where "exec m c = m\<lparr>tasks := take k (tasks m) @ drop (Suc k) (tasks m)\<rparr>"
      unfolding removed_def by blast
    with assms distinct_remove_nth [of "map task_id (tasks m)" k] show ?thesis
      by (auto simp: ids_ok_def list_all_iff take_map drop_map dest: in_set_takeD in_set_dropD)
  next
    case 4
    from touched_ids [OF 4] assms show ?thesis
      by (simp add: ids_ok_def)
  qed
qed

lemma run_ids_ok: "ids_ok m \<Longrightarrow> ids_ok (run m cs)"
  by (induction cs arbitrary: m) (simp_all add: run_Nil run_Cons exec_ids_ok)

lemma ids_ok_new: "ids_ok new_TodoListManager"
  by (simp add: ids_ok_def new_TodoListManager_def)

lemma removed_nextId: "removed m m' \<Longrightarrow> nextId m' = nextId m"
  by (auto simp: removed_def)

lemma exec_nextId:
  "nextId (exec m c) =
     (if \<exists>descr due. c = AddTask descr due \<and> \<not> isl (fst (addTask m descr due))
      then nextId m + 1 else nextId m)"
proof (cases c)
  case (AddTask descr due)
  then show ?thesis
    by (auto simp: addTask_def split: sum.splits)
next
  case (FindTaskById v)
  then show ?thesis by (simp add: findTaskById_def)
next
  case (MarkTaskComplete v)
  with markTaskComplete_shape [of m v] show ?thesis by (auto simp: touched_ids)
next
  case (MarkTaskIncomplete v)
  with markTaskIncomplete_shape [of m v] show ?thesis by (auto simp: touched_ids)
next
  case (ListTasks v)
  then show ?thesis by (cases v) (simp_all add: listTasks_def)
next
  case (DeleteTask v)
  with deleteTask_shape [of m v] show ?thesis by (auto simp: removed_nextId)
next
  case (UpdateTask v upd)
  with updateTask_shape [of m v upd] show ?thesis by (auto simp: touched_ids)
next
  case (OnTask k tc)
  then show ?thesis by simp
qed

lemma exec_nextId_mono: "nextId m \<le> nextId (exec m c)"
  by (simp add: exec_nextId)

lemma run_nextId_mono: "nextId m \<le> nextId (run m cs)"
proof (induction cs arbitrary: m)
  case Nil
  show ?case by (simp add: run_Nil)
next
  case (Cons c cs)
  from exec_nextId_mono [of m c] Cons [of "exec m c"] show ?case
    by (simp add: run_Cons)
qed

lemma nth_notin_remove_nth:
  assumes "distinct xs" and "k < length xs"
  shows "xs ! k \<notin> set (take k xs @ drop (Suc k) xs)"
proof -
  from assms(2) have "xs = take k xs @ xs ! k # drop (Suc k) xs"
    by (rule id_take_nth_drop)
  with assms(1) have "distinct (take k xs @ xs ! k # drop (Suc k) xs)"
    by simp
  then show ?thesis by auto
qed

lemma deleteTask_freed:
  assumes "ids_ok m" and "deleteTask m v = (Inr b, m')"
  shows "\<exists>i. v = JNum (Finite (of_int i)) \<and> i < nextId m' \<and> i \<notin> set (map task_id (tasks m'))"
proof -
  let ?P = "\<lambda>task. strict_equals_id (task_id task) v"
  from assms(2) obtain k where k: "findIndex ?P (tasks m) = Some k"
    by (auto simp: deleteTask_def split: option.splits)
  with assms(2) have m': "m' = m\<lparr>tasks := take k (tasks m) @ drop (Suc k) (tasks m)\<rparr>"
    by (simp add: deleteTask_def)
  from findIndex_Some [OF k] have kl: "k < length (tasks m)" and v: "?P (tasks m ! k)"
    by simp_all
  let ?i = "task_id (tasks m ! k)"
  from v have "v = JNum (Finite (of_int ?i))"
    by (simp add: strict_equals_id_iff)
  moreover from assms(1) kl have "?i < nextId m"
    by (simp add: ids_ok_def list_all_length)
  moreover from assms(1) kl nth_notin_remove_nth [of "map task_id (tasks m)" k]
  have "?i \<notin> set (map task_id (tasks m'))"
    by (simp add: ids_ok_def m' take_map drop_map)
  ultimately show ?thesis
    using m' by auto
qed

text \<open>
  C8. In every state reachable from a new manager the ids of the stored tasks are
  pairwise distinct and below the counter. The counter of a new manager is 1; a call
  advances it by one when it is an \<^verbatim>\<open>addTask\<close> that returns, and leaves it as it was
  otherwise. After \<^verbatim>\<open>deleteTask(id)\<close> has returned in a reachable state,
  \<^verbatim>\<open>_findTaskById(id)\<close> finds nothing, and no \<^verbatim>\<open>addTask\<close> after any further calls
  returns a task with that id.
\<close>

theorem ids_never_reused:
  "distinct (map task_id (tasks (run new_TodoListManager cs)))
   \<and> (\<forall>t\<in>set (tasks (run new_TodoListManager cs)). task_id t < nextId (run new_TodoListManager cs))
   \<and> nextId new_TodoListManager = 1
   \<and> nextId (exec m c) =
       (if \<exists>descr due. c = AddTask descr due \<and> \<not> isl (fst (addTask m descr due))
        then nextId m + 1 else nextId m)
   \<and> (deleteTask (run new_TodoListManager cs) v = (Inr b, m') \<longrightarrow>
        findTaskById m' v = (Inr None, m')
        \<and> (\<forall>cs' descr due t m''.
              addTask (run m' cs') descr due = (Inr t, m'') \<longrightarrow> \<not> strict_equals_id (task_id t) v))"
proof (intro conjI impI allI)
  let ?m = "run new_TodoListManager cs"
  have ok: "ids_ok ?m"
    by (rule run_ids_ok [OF ids_ok_new])
  then show "distinct (map task_id (tasks ?m))"
    by (simp add: ids_ok_def)
  from ok show "\<forall>t\<in>set (tasks ?m). task_id t < nextId ?m"
    by (simp add: ids_ok_def list_all_iff)
  show "nextId new_TodoListManager = 1"
    by (simp add: new_TodoListManager_def)
  show "nextId (exec m c) =
       (if \<exists>descr due. c = AddTask descr due \<and> \<not> isl (fst (addTask m descr due))
        then nextId m + 1 else nextId m)"
    by (rule exec_nextId)
  assume d: "deleteTask ?m v = (Inr b, m')"
  from deleteTask_freed [OF ok d] obtain i where i: "v = JNum (Finite (of_int i))"
    "i < nextId m'" "i \<notin> set (map task_id (tasks m'))"
    by blast
  from i(1,3) show "findTaskById m' v = (Inr None, m')"
    by (auto simp: findTaskById_def find_None_iff)
  fix cs' descr due t m''
  assume a: "addTask (run m' cs') descr due = (Inr t, m'')"
  then have "new_Task (nextId (run m' cs')) descr due False = Inr t"
    by (auto simp: addTask_def split: sum.splits)
  then have "task_id t = nextId (run m' cs')"
    by (rule new_Task_id)
  with run_nextId_mono [of m' cs'] i(2) have "task_id t \<noteq> i"
    by simp
  with i(1) show "\<not> strict_equals_id (task_id t) v"
    by simp
qed

theorem ids_never_reused_witness:
  "distinct (map task_id (tasks (run new_TodoListManager example_calls)))
   \<and> nextId (run new_TodoListManager example_calls) = 3
   \<and> nextId (exec new_TodoListManager (AddTask (JStr ''Buy milk'') (JStr ''2024-08-15''))) = 2
   \<and> nextId (exec new_TodoListManager (AddTask (JStr '' '') (JStr ''2024-08-15''))) = 1
   \<and> fst (deleteTask (run new_TodoListManager example_calls) (JNum (Finite 1))) = Inr True
   \<and> fst (findTaskById (snd (deleteTask (run new_TodoListManager example_calls) (JNum (Finite 1))))
            (JNum (Finite 1))) = Inr None
   \<and> \<not> strict_equals_id
          (task_id (projr (fst (addTask
             (run (snd (deleteTask (run new_TodoListManager example_calls) (JNum (Finite 1)))) [])
             (JStr ''Call'') (JStr ''2024-08-21'')))))
          (JNum (Finite 1))"
proof -
  let ?m = "run new_TodoListManager example_calls"
  let ?v = "JNum (Finite 1)"
  let ?m' = "snd (deleteTask ?m ?v)"
  let ?a = "addTask (run ?m' []) (JStr ''Call'') (JStr ''2024-08-21'')"
  note th = ids_never_reused [of example_calls new_TodoListManager _ ?v True ?m']
  have n: "nextId ?m = 3" by code_simp
  have e1: "\<not> isl (fst (addTask new_TodoListManager (JStr ''Buy milk'') (JStr ''2024-08-15'')))"
    by code_simp
  have e2: "isl (fst (addTask new_TodoListManager (JStr '' '') (JStr ''2024-08-15'')))"
    by code_simp
  have d: "deleteTask ?m ?v = (Inr True, ?m')" by code_simp
  have a: "?a = (Inr (projr (fst ?a)), snd ?a)" by code_simp
  from th [of "AddTask (JStr ''Buy milk'') (JStr ''2024-08-15'')"] e1
  have c1: "nextId (exec new_TodoListManager (AddTask (JStr ''Buy milk'') (JStr ''2024-08-15''))) = 2"
    by (simp add: new_TodoListManager_def)
  from th [of "AddTask (JStr '' '') (JStr ''2024-08-15'')"] e2
  have c2: "nextId (exec new_TodoListManager (AddTask (JStr '' '') (JStr ''2024-08-15''))) = 1"
    by (simp add: new_TodoListManager_def)
  from th [of "ListTasks JNull"] d
  have f: "findTaskById ?m' ?v = (Inr None, ?m')"
    and r: "\<And>cs' descr due t m''.
              addTask (run ?m' cs') descr due = (Inr t, m'') \<Longrightarrow> \<not> strict_equals_id (task_id t) ?v"
    by blast+
  from th [of "ListTasks JNull"] have dist: "distinct (map task_id (tasks ?m))"
    by blast
  have d1: "fst (deleteTask ?m ?v) = Inr True"
    by (subst d) simp
  have f1: "fst (findTaskById ?m' ?v) = Inr None"
    by (subst f) simp
  from dist n c1 c2 d1 f1 r [OF a] show ?thesis
    by (intro conjI)
qed

end
